theory Spec2Isabelle
  imports Complex_Main
begin

section \<open>Data model of pagerank.py\<close>

text \<open>
  The program works on Python floats, dicts and sets.

  \<^item> A float is modelled as a \<^typ>\<open>real\<close>: results are results of exact arithmetic,
    rounding is not modelled. The one exception is the selection loop of
    \<open>sample_pagerank\<close>, whose outcome depends on rounding: for it the functions are
    modelled a second time in binary64 arithmetic (\<open>transition_model_double\<close>,
    \<open>select_next_double\<close>, \<open>sample_body_double\<close>).
  \<^item> A dict is a list of key/value pairs with distinct keys, in insertion order (the
    order in which Python iterates over it). \<open>map_of\<close> is the lookup.
  \<^item> A set is a list without duplicates; the order of the list stands for the order in
    which the set is iterated, which Python leaves open. \<open>length\<close> is \<open>len\<close>, and
    \<open>add\<close> puts a new element last. The only value that depends on this order is the
    binding that a \<open>for\<close> over a set leaves behind; the examples below iterate over
    one-element sets only.
  \<^item> An exception is a value of \<open>py_error\<close>; a function that can raise returns
    \<open>py_error + 'a\<close>.
\<close>

datatype py_error = KeyError | IndexError | ZeroDivisionError | UnboundLocalError

type_synonym 'p corpus = "('p \<times> 'p list) list"

type_synonym 'p distribution = "('p \<times> real) list"

text \<open>\<open>d[k] = v\<close>: an existing key keeps its position, a new key goes to the end.\<close>

fun dict_set :: "('k \<times> 'v) list \<Rightarrow> 'k \<Rightarrow> 'v \<Rightarrow> ('k \<times> 'v) list" where
  "dict_set [] k v = [(k, v)]"
| "dict_set ((k', v') # rest) k v =
     (if k' = k then (k, v) # rest else (k', v') # dict_set rest k v)"

text \<open>\<open>s.add(x)\<close> on a set.\<close>

definition set_add :: "'a list \<Rightarrow> 'a \<Rightarrow> 'a list" where
  "set_add s x = (if x \<in> set s then s else s @ [x])"

text \<open>
  The corpus that \<open>crawl\<close> hands over: keys are distinct, every link set is duplicate-free
  and links only to pages of the corpus.
\<close>

definition wf_corpus :: "'p corpus \<Rightarrow> bool" where
  "wf_corpus corpus \<longleftrightarrow>
     distinct (map fst corpus) \<and>
     list_all (\<lambda>(page, links). distinct links \<and> list_all (\<lambda>l. l \<in> set (map fst corpus)) links) corpus"

section \<open>transition_model\<close>

text \<open>
  Lines 51-76. \<open>corpus[page]\<close> raises KeyError for a page that is no key, and
  \<open>1 / corpus_length\<close> raises ZeroDivisionError for an empty corpus. The output dict gets
  one entry per key of the corpus, in the order of the corpus.
\<close>

definition transition_model :: "'p corpus \<Rightarrow> 'p \<Rightarrow> real \<Rightarrow> py_error + 'p distribution" where
  "transition_model corpus page damping_factor =
     (case map_of corpus page of
        None \<Rightarrow> Inl KeyError
      | Some linked_pages \<Rightarrow>
          let corpus_length = length corpus;
              linked_pages_length = length linked_pages
          in if corpus_length = 0 then Inl ZeroDivisionError
             else
               let random_page_probability =
                     (if linked_pages_length \<noteq> 0
                      then (1 / real corpus_length) * (1 - damping_factor)
                      else 1 / real corpus_length);
                   linked_page_probability =
                     (if linked_pages_length \<noteq> 0
                      then (1 / real linked_pages_length) * damping_factor
                      else 0)
               in Inr (map (\<lambda>(key, _).
                             (key, if key \<in> set linked_pages
                                   then random_page_probability + linked_page_probability
                                   else random_page_probability))
                           corpus))"

text \<open>The corpus of the spec's scenario, \<open>{A: {B, C}, B: {C}, C: {B}}\<close>.\<close>

definition corpus_abc :: "string corpus" where
  "corpus_abc = [(''A'', [''B'', ''C'']), (''B'', [''C'']), (''C'', [''B''])]"

text \<open>The corpus of the spec's second scenario, \<open>{A: {}, B: {A}, C: {A}}\<close>.\<close>

definition corpus_sink :: "string corpus" where
  "corpus_sink = [(''A'', []), (''B'', [''A'']), (''C'', [''A''])]"

text \<open>The corpus of test.py.\<close>

definition corpus_test :: "string corpus" where
  "corpus_test =
     [(''1.html'', [''2.html'', ''3.html'']), (''2.html'', [''3.html'']), (''3.html'', [''2.html''])]"

section \<open>sample_pagerank\<close>

text \<open>
  The random source is an argument of the model: \<open>start\<close> is the number that
  \<open>random.choice\<close> draws for its index, and \<open>rgns i\<close> is the value that
  \<open>random.random()\<close> returns in iteration \<open>i\<close> of the loop.

  \<open>random.choice(seq)\<close> raises IndexError on an empty sequence and returns
  \<open>seq[i]\<close> for a drawn index \<open>i\<close> below \<open>len(seq)\<close> otherwise; the index is
  the drawn number modulo \<open>len(seq)\<close>.
\<close>

definition choice :: "'a list \<Rightarrow> nat \<Rightarrow> py_error + 'a" where
  "choice xs i = (if xs = [] then Inl IndexError else Inr (xs ! (i mod length xs)))"

text \<open>
  Lines 106-110, the selection loop. \<open>None\<close> is the path on which the loop ends
  without \<open>break\<close>, so that \<open>current_page\<close> keeps its value. The running sum is
  an exact sum here; \<open>select_next_double\<close> below rounds it as the program does.
\<close>

fun select_next :: "'p distribution \<Rightarrow> real \<Rightarrow> real \<Rightarrow> 'p option" where
  "select_next [] rgn prob_count = None"
| "select_next ((key, pr) # rest) rgn prob_count =
     (if rgn < prob_count + pr then Some key else select_next rest rgn (prob_count + pr))"

record 'p sample_state =
  current_page :: 'p
  pages_probabilities :: "('p \<times> 'p distribution) list"
  pages_count :: "('p \<times> int) list"

text \<open>Lines 95-98: a visit of \<open>page\<close> is counted.\<close>

definition record_visit :: "('p \<times> int) list \<Rightarrow> 'p \<Rightarrow> ('p \<times> int) list" where
  "record_visit counts page =
     (case map_of counts page of
        Some c \<Rightarrow> dict_set counts page (c + 1)
      | None \<Rightarrow> dict_set counts page 1)"

text \<open>Lines 92-110, one iteration of the loop, with the draw \<open>rgn\<close> of this iteration.\<close>

definition sample_body :: "'p corpus \<Rightarrow> real \<Rightarrow> real \<Rightarrow> 'p sample_state \<Rightarrow> py_error + 'p sample_state" where
  "sample_body corpus damping_factor rgn st =
     (let cur = current_page st;
          pages_count' = record_visit (pages_count st) cur
      in case (case map_of (pages_probabilities st) cur of
                 Some probs \<Rightarrow> Inr (probs, pages_probabilities st)
               | None \<Rightarrow>
                   (case transition_model corpus cur damping_factor of
                      Inl e \<Rightarrow> Inl e
                    | Inr probs \<Rightarrow> Inr (probs, dict_set (pages_probabilities st) cur probs)))
         of Inl e \<Rightarrow> Inl e
          | Inr (current_page_probabilities, pages_probabilities') \<Rightarrow>
              Inr \<lparr>current_page =
                     (case select_next current_page_probabilities rgn 0 of
                        Some key \<Rightarrow> key
                      | None \<Rightarrow> cur),
                   pages_probabilities = pages_probabilities',
                   pages_count = pages_count'\<rparr>)"

text \<open>Line 91, \<open>for i in range(n)\<close>: \<open>m\<close> iterations are left, the next one is iteration \<open>i\<close>.\<close>

fun sample_loop :: "'p corpus \<Rightarrow> real \<Rightarrow> (nat \<Rightarrow> real) \<Rightarrow> nat \<Rightarrow> nat \<Rightarrow> 'p sample_state
    \<Rightarrow> py_error + 'p sample_state" where
  "sample_loop corpus damping_factor rgns i 0 st = Inr st"
| "sample_loop corpus damping_factor rgns i (Suc m) st =
     (case sample_body corpus damping_factor (rgns i) st of
        Inl e \<Rightarrow> Inl e
      | Inr st' \<Rightarrow> sample_loop corpus damping_factor rgns (Suc i) m st')"

text \<open>Lines 112-114. The division raises ZeroDivisionError when \<open>n\<close> is 0.\<close>

fun output_ranks :: "('p \<times> int) list \<Rightarrow> int \<Rightarrow> py_error + 'p distribution" where
  "output_ranks [] n = Inr []"
| "output_ranks ((key, c) # rest) n =
     (if n = 0 then Inl ZeroDivisionError
      else case output_ranks rest n of
             Inl e \<Rightarrow> Inl e
           | Inr out \<Rightarrow> Inr ((key, real_of_int c / real_of_int n) # out))"

text \<open>Lines 79-116. \<open>range(n)\<close> is empty for \<open>n \<le> 0\<close>.\<close>

definition sample_pagerank :: "'p corpus \<Rightarrow> real \<Rightarrow> int \<Rightarrow> nat \<Rightarrow> (nat \<Rightarrow> real)
    \<Rightarrow> py_error + 'p distribution" where
  "sample_pagerank corpus damping_factor n start rgns =
     (case choice (map fst corpus) start of
        Inl e \<Rightarrow> Inl e
      | Inr first_page \<Rightarrow>
          (case sample_loop corpus damping_factor rgns 0 (nat n)
                  \<lparr>current_page = first_page, pages_probabilities = [], pages_count = []\<rparr> of
             Inl e \<Rightarrow> Inl e
           | Inr st \<Rightarrow> output_ranks (pages_count st) n))"

text \<open>A random source whose every draw is the same value.\<close>

definition const_rgns :: "real \<Rightarrow> nat \<Rightarrow> real" where
  "const_rgns r i = r"

subsection \<open>The walk as the spec describes it\<close>

text \<open>
  The spec's random walk, written without the cache and without the counters: the next
  page is the first entry of the current page's transition distribution at which the
  running sum exceeds the draw. \<open>walk\<close> lists the pages visited in \<open>m\<close> steps.
\<close>

definition next_page :: "'p corpus \<Rightarrow> real \<Rightarrow> 'p \<Rightarrow> real \<Rightarrow> 'p" where
  "next_page corpus damping_factor cur rgn =
     (case transition_model corpus cur damping_factor of
        Inl e \<Rightarrow> cur
      | Inr probs \<Rightarrow> (case select_next probs rgn 0 of Some key \<Rightarrow> key | None \<Rightarrow> cur))"

fun walk :: "'p corpus \<Rightarrow> real \<Rightarrow> (nat \<Rightarrow> real) \<Rightarrow> nat \<Rightarrow> nat \<Rightarrow> 'p \<Rightarrow> 'p list" where
  "walk corpus damping_factor rgns i 0 cur = []"
| "walk corpus damping_factor rgns i (Suc m) cur =
     cur # walk corpus damping_factor rgns (Suc i) m (next_page corpus damping_factor cur (rgns i))"

text \<open>The pages that \<open>n\<close> steps visit, from the starting page that \<open>start\<close> selects.\<close>

definition visited_pages :: "'p corpus \<Rightarrow> real \<Rightarrow> int \<Rightarrow> nat \<Rightarrow> (nat \<Rightarrow> real) \<Rightarrow> 'p list" where
  "visited_pages corpus damping_factor n start rgns =
     walk corpus damping_factor rgns 0 (nat n) (map fst corpus ! (start mod length corpus))"

text \<open>
  The cache \<open>pages_probabilities\<close> is consistent when each of its entries is the
  transition distribution of its page.
\<close>

definition cache_ok :: "'p corpus \<Rightarrow> real \<Rightarrow> ('p \<times> 'p distribution) list \<Rightarrow> bool" where
  "cache_ok corpus damping_factor cache \<longleftrightarrow>
     list_all (\<lambda>(page, probs). transition_model corpus page damping_factor = Inr probs) cache"

section \<open>The selection loop in binary64 arithmetic\<close>

text \<open>
  Python's floats are IEEE 754 binary64 numbers, and each arithmetic operation returns
  the exact result rounded to the nearest such number, ties to the even significand.
  \<open>round_even\<close> rounds to the nearest integer, ties to even. \<open>round_bits\<close> rounds a
  positive number to 53 significant bits: it scales the number into \<open>[1, 2)\<close>, rounds
  to 52 fractional bits and scales back; its first argument bounds the number of
  scalings. \<open>double\<close> allows 1100 of them, which covers the exponents of binary64;
  overflow and subnormal numbers are not modelled (the probabilities and their sums lie
  between \<open>2 ^ -1000\<close> and 2 for every corpus of realistic size).
\<close>

definition round_even :: "real \<Rightarrow> int" where
  "round_even x =
     (let f = \<lfloor>x\<rfloor>; r = x - of_int f
      in if r < 1 / 2 then f else if 1 / 2 < r then f + 1 else if even f then f else f + 1)"

fun round_bits :: "nat \<Rightarrow> real \<Rightarrow> real" where
  "round_bits 0 x = x"
| "round_bits (Suc n) x =
     (if 2 \<le> x then 2 * round_bits n (x / 2)
      else if x < 1 then round_bits n (2 * x) / 2
      else of_int (round_even (x * 2 ^ 52)) / 2 ^ 52)"

declare round_bits.simps [simp del]

definition double :: "real \<Rightarrow> real" where
  "double x =
     (if x = 0 then 0
      else if 0 < x then round_bits 1100 x
      else - round_bits 1100 (- x))"

text \<open>
  Lines 51-76 in binary64: \<open>1 / corpus_length\<close>, \<open>1 - damping_factor\<close>, the two
  products and the sum of line 75 are rounded each. The damping factor is a float already.
\<close>

definition transition_model_double :: "'p corpus \<Rightarrow> 'p \<Rightarrow> real \<Rightarrow> py_error + 'p distribution" where
  "transition_model_double corpus page damping_factor =
     (case map_of corpus page of
        None \<Rightarrow> Inl KeyError
      | Some linked_pages \<Rightarrow>
          let corpus_length = length corpus;
              linked_pages_length = length linked_pages
          in if corpus_length = 0 then Inl ZeroDivisionError
             else
               let random_page_probability =
                     (if linked_pages_length \<noteq> 0
                      then double (double (1 / real corpus_length) * double (1 - damping_factor))
                      else double (1 / real corpus_length));
                   linked_page_probability =
                     (if linked_pages_length \<noteq> 0
                      then double (double (1 / real linked_pages_length) * damping_factor)
                      else 0)
               in Inr (map (\<lambda>(key, _).
                             (key, if key \<in> set linked_pages
                                   then double (random_page_probability + linked_page_probability)
                                   else random_page_probability))
                           corpus))"

text \<open>Lines 106-110 in binary64: \<open>prob_count += ...\<close> rounds the running sum.\<close>

fun select_next_double :: "'p distribution \<Rightarrow> real \<Rightarrow> real \<Rightarrow> 'p option" where
  "select_next_double [] rgn prob_count = None"
| "select_next_double ((key, pr) # rest) rgn prob_count =
     (if rgn < double (prob_count + pr) then Some key
      else select_next_double rest rgn (double (prob_count + pr)))"

text \<open>Lines 92-110 in binary64: \<open>sample_body\<close> with the two functions above.\<close>

definition sample_body_double :: "'p corpus \<Rightarrow> real \<Rightarrow> real \<Rightarrow> 'p sample_state \<Rightarrow> py_error + 'p sample_state" where
  "sample_body_double corpus damping_factor rgn st =
     (let cur = current_page st;
          pages_count' = record_visit (pages_count st) cur
      in case (case map_of (pages_probabilities st) cur of
                 Some probs \<Rightarrow> Inr (probs, pages_probabilities st)
               | None \<Rightarrow>
                   (case transition_model_double corpus cur damping_factor of
                      Inl e \<Rightarrow> Inl e
                    | Inr probs \<Rightarrow> Inr (probs, dict_set (pages_probabilities st) cur probs)))
         of Inl e \<Rightarrow> Inl e
          | Inr (current_page_probabilities, pages_probabilities') \<Rightarrow>
              Inr \<lparr>current_page =
                     (case select_next_double current_page_probabilities rgn 0 of
                        Some key \<Rightarrow> key
                      | None \<Rightarrow> cur),
                   pages_probabilities = pages_probabilities',
                   pages_count = pages_count'\<rparr>)"

section \<open>iterate_pagerank\<close>

text \<open>Lines 134-138: the page \<open>page\<close> is recorded as mentioning each page it links to.\<close>

fun mention_links :: "'p \<Rightarrow> 'p list \<Rightarrow> ('p \<times> 'p list) list \<Rightarrow> ('p \<times> 'p list) list" where
  "mention_links page [] pages_that_mention_pages = pages_that_mention_pages"
| "mention_links page (referenced_page # rest) pages_that_mention_pages =
     mention_links page rest
       (case map_of pages_that_mention_pages referenced_page of
          Some s \<Rightarrow> dict_set pages_that_mention_pages referenced_page (set_add s page)
        | None \<Rightarrow> dict_set pages_that_mention_pages referenced_page [page])"

text \<open>Lines 132-138: the starting ranks and the reverse index.\<close>

fun init_loop :: "'p corpus \<Rightarrow> real \<Rightarrow> ('p \<times> real) list \<times> ('p \<times> 'p list) list
    \<Rightarrow> ('p \<times> real) list \<times> ('p \<times> 'p list) list" where
  "init_loop [] starting_rank acc = acc"
| "init_loop ((page, links) # rest) starting_rank (page_ranks, pages_that_mention_pages) =
     init_loop rest starting_rank
       (dict_set page_ranks page starting_rank, mention_links page links pages_that_mention_pages)"

text \<open>
  The local variable \<open>reference_page\<close> is part of the state of the loop, since line 151
  reads it outside the \<open>for\<close> that binds it: \<open>None\<close> is the unbound variable.
\<close>

record 'p iterate_state =
  page_ranks :: "('p \<times> real) list"
  current_count :: nat
  convergence_count :: nat
  reference_page :: "'p option"

text \<open>
  Lines 148-149, the \<open>for\<close> over the pages that mention the current page. It carries
  \<open>references_sum\<close> and the binding of \<open>reference_page\<close>.
\<close>

fun sum_references :: "'p corpus \<Rightarrow> ('p \<times> real) list \<Rightarrow> real \<Rightarrow> nat \<Rightarrow> 'p list
    \<Rightarrow> real \<times> 'p option \<Rightarrow> py_error + real \<times> 'p option" where
  "sum_references corpus ranks damping_factor page_count [] acc = Inr acc"
| "sum_references corpus ranks damping_factor page_count (rp # rest) (references_sum, bound) =
     (case map_of ranks rp of
        None \<Rightarrow> Inl KeyError
      | Some r \<Rightarrow>
          (case map_of corpus rp of
             None \<Rightarrow> Inl KeyError
           | Some links \<Rightarrow>
               let l = (if length links \<noteq> 0 then length links else page_count)
               in if l = 0 then Inl ZeroDivisionError
                  else sum_references corpus ranks damping_factor page_count rest
                         (references_sum + damping_factor * (r / real l), Some rp)))"

text \<open>Lines 145-159, one pass through the body of the \<open>while\<close>.\<close>

definition iterate_body :: "'p corpus \<Rightarrow> real \<Rightarrow> ('p \<times> 'p list) list \<Rightarrow> 'p list \<Rightarrow> nat
    \<Rightarrow> 'p iterate_state \<Rightarrow> py_error + 'p iterate_state" where
  "iterate_body corpus damping_factor pages_that_mention_pages pages_list page_count st =
     (if page_count = 0 then Inl ZeroDivisionError
      else if length pages_list \<le> current_count st mod page_count then Inl IndexError
      else
        let cur = pages_list ! (current_count st mod page_count)
        in case (case map_of pages_that_mention_pages cur of
                   Some mentions \<Rightarrow>
                     sum_references corpus (page_ranks st) damping_factor page_count mentions
                       (0, reference_page st)
                 | None \<Rightarrow>
                     (case reference_page st of
                        None \<Rightarrow> Inl UnboundLocalError
                      | Some rp \<Rightarrow>
                          (case map_of (page_ranks st) rp of
                             None \<Rightarrow> Inl KeyError
                           | Some r \<Rightarrow>
                               Inr (0 + damping_factor * (r / real page_count), Some rp))))
           of Inl e \<Rightarrow> Inl e
            | Inr (references_sum, bound) \<Rightarrow>
                let new_rank = ((1 - damping_factor) / real page_count) + references_sum
                in (case map_of (page_ranks st) cur of
                      None \<Rightarrow> Inl KeyError
                    | Some old_rank \<Rightarrow>
                        Inr \<lparr>page_ranks = dict_set (page_ranks st) cur new_rank,
                             current_count = current_count st + 1,
                             convergence_count =
                               (if \<bar>old_rank - new_rank\<bar> \<le> 1 / 1000
                                then convergence_count st + 1 else 0),
                             reference_page = bound\<rparr>))"

text \<open>
  Lines 143-159. The loop has no bound on its iterations: \<open>fuel\<close> is the number of
  passes through the body the model may make, and \<open>None\<close> says that they did not
  suffice. The exit test of line 144 comes first and needs no fuel.
\<close>

fun iterate_loop :: "nat \<Rightarrow> 'p corpus \<Rightarrow> real \<Rightarrow> ('p \<times> 'p list) list \<Rightarrow> 'p list \<Rightarrow> nat
    \<Rightarrow> 'p iterate_state \<Rightarrow> (py_error + 'p iterate_state) option" where
  "iterate_loop 0 corpus damping_factor mentions pages_list page_count st =
     (if convergence_count st \<ge> page_count then Some (Inr st) else None)"
| "iterate_loop (Suc fuel) corpus damping_factor mentions pages_list page_count st =
     (if convergence_count st \<ge> page_count then Some (Inr st)
      else case iterate_body corpus damping_factor mentions pages_list page_count st of
             Inl e \<Rightarrow> Some (Inl e)
           | Inr st' \<Rightarrow>
               iterate_loop fuel corpus damping_factor mentions pages_list page_count st')"

text \<open>The state in which the loop starts, after lines 128-142.\<close>

definition initial_state :: "'p corpus \<Rightarrow> ('p \<times> 'p list) list \<times> 'p iterate_state" where
  "initial_state corpus =
     (let (ranks, mentions) = init_loop corpus (1 / real (length corpus)) ([], [])
      in (mentions,
          \<lparr>page_ranks = ranks, current_count = 0, convergence_count = 0,
           reference_page = None\<rparr>))"

text \<open>Lines 119-161. \<open>1 / page_count\<close> raises ZeroDivisionError on an empty corpus.\<close>

definition iterate_pagerank :: "'p corpus \<Rightarrow> real \<Rightarrow> nat \<Rightarrow> (py_error + ('p \<times> real) list) option" where
  "iterate_pagerank corpus damping_factor fuel =
     (let page_count = length corpus
      in if page_count = 0 then Some (Inl ZeroDivisionError)
         else
           let (mentions, st0) = initial_state corpus
           in (case iterate_loop fuel corpus damping_factor mentions (map fst corpus) page_count st0 of
                 None \<Rightarrow> None
               | Some (Inl e) \<Rightarrow> Some (Inl e)
               | Some (Inr st) \<Rightarrow> Some (Inr (page_ranks st))))"

subsection \<open>Notions used to state the properties\<close>



text \<open>\<open>p\<close> links to \<open>q\<close> in the corpus.\<close>

definition links_to :: "'p corpus \<Rightarrow> 'p \<Rightarrow> 'p \<Rightarrow> bool" where
  "links_to corpus p q \<longleftrightarrow> list_ex (\<lambda>(page, links). page = p \<and> q \<in> set links) corpus"

text \<open>Every page recorded as mentioning a page does link to it.\<close>

definition mentions_ok :: "'p corpus \<Rightarrow> ('p \<times> 'p list) list \<Rightarrow> bool" where
  "mentions_ok corpus mentions \<longleftrightarrow>
     list_all (\<lambda>(q, refs). list_all (\<lambda>p. links_to corpus p q) refs) mentions"



subsection \<open>Example corpora\<close>



text \<open>Page A has no incoming link and is the second key of the corpus.\<close>

definition corpus_late :: "string corpus" where
  "corpus_late = [(''C'', [''B'']), (''A'', [''B'']), (''B'', [''C''])]"

text \<open>
  Four pages, each with an incoming link; page D has no outgoing link.
\<close>

definition corpus_dangling :: "string corpus" where
  "corpus_dangling = [(''A'', [''B'', ''C'', ''D'']), (''B'', [''A'']), (''C'', [''B'']), (''D'', [])]"

section \<open>Properties of transition_model\<close>

lemma map_of_nonempty: "map_of corpus page = Some v \<Longrightarrow> corpus \<noteq> []"
  by auto

text \<open>
  C1. For a page with \<open>k > 0\<close> outgoing links \<open>L\<close>, every page of the corpus gets
  \<open>(1 - d) / N\<close>, and the pages of \<open>L\<close> get \<open>d / k\<close> on top. On the corpus
  \<open>{A: {B, C}, B: {C}, C: {B}}\<close> with \<open>d = 0.85\<close>, page A yields
  \<open>{A: 0.05, B: 0.475, C: 0.475}\<close>.
\<close>

theorem transition_model_linked:
  "(map_of corpus page = Some L \<and> L \<noteq> [] \<longrightarrow>
      transition_model corpus page d =
        Inr (map (\<lambda>(key, _). (key, (1 - d) / real (length corpus)
                                 + (if key \<in> set L then d / real (length L) else 0)))
                 corpus))
   \<and> transition_model corpus_abc ''A'' (85 / 100) =
        Inr [(''A'', 5 / 100), (''B'', 475 / 1000), (''C'', 475 / 1000)]"
proof (intro conjI impI)
  assume h: "map_of corpus page = Some L \<and> L \<noteq> []"
  then have "corpus \<noteq> []" by auto
  with h show "transition_model corpus page d =
        Inr (map (\<lambda>(key, _). (key, (1 - d) / real (length corpus)
                                 + (if key \<in> set L then d / real (length L) else 0)))
                 corpus)"
    by (auto simp: transition_model_def Let_def)
next
  show "transition_model corpus_abc ''A'' (85 / 100) =
        Inr [(''A'', 5 / 100), (''B'', 475 / 1000), (''C'', 475 / 1000)]"
    by (simp add: transition_model_def corpus_abc_def)
qed

theorem transition_model_linked_witness:
  "map_of corpus_abc ''B'' = Some [''C''] \<and> [''C''] \<noteq> ([] :: string list) \<and>
   transition_model corpus_abc ''B'' (1 / 2) =
     Inr [(''A'', 1 / 6), (''B'', 1 / 6), (''C'', 2 / 3)]"
proof -
  have h: "map_of corpus_abc ''B'' = Some [''C''] \<and> [''C''] \<noteq> ([] :: string list)"
    by (simp add: corpus_abc_def)
  from transition_model_linked [of corpus_abc "''B''" "[''C'']" "1 / 2"] h
  have "transition_model corpus_abc ''B'' (1 / 2) =
        Inr (map (\<lambda>(key, _). (key, (1 - 1 / 2) / real (length corpus_abc)
                                 + (if key \<in> set [''C''] then (1 / 2) / real (length [''C'']) else 0)))
                 corpus_abc)"
    by blast
  then have "transition_model corpus_abc ''B'' (1 / 2) =
     Inr [(''A'', 1 / 6), (''B'', 1 / 6), (''C'', 2 / 3)]"
    by (simp add: corpus_abc_def)
  with h show ?thesis by blast
qed

text \<open>
  C4. For a page without outgoing links the result is uniform, \<open>1 / N\<close> for every page
  of the corpus, whatever the damping factor is.
\<close>

theorem transition_model_dangling:
  "map_of corpus page = Some [] \<Longrightarrow>
   transition_model corpus page d =
     Inr (map (\<lambda>(key, _). (key, 1 / real (length corpus))) corpus)"
proof -
  assume h: "map_of corpus page = Some []"
  then have "corpus \<noteq> []" by auto
  with h show ?thesis
    by (simp add: transition_model_def)
qed

theorem transition_model_dangling_witness:
  "map_of corpus_sink ''A'' = Some [] \<and>
   transition_model corpus_sink ''A'' (85 / 100) =
     Inr [(''A'', 1 / 3), (''B'', 1 / 3), (''C'', 1 / 3)] \<and>
   transition_model corpus_sink ''A'' 0 =
     Inr [(''A'', 1 / 3), (''B'', 1 / 3), (''C'', 1 / 3)] \<and>
   transition_model corpus_sink ''A'' 1 =
     Inr [(''A'', 1 / 3), (''B'', 1 / 3), (''C'', 1 / 3)]"
proof -
  have h: "map_of corpus_sink ''A'' = Some []"
    by (simp add: corpus_sink_def)
  have u: "map (\<lambda>(key, _). (key, 1 / real (length corpus_sink))) corpus_sink =
     [(''A'', 1 / 3), (''B'', 1 / 3), (''C'', 1 / 3)]"
    by (simp add: corpus_sink_def)
  from transition_model_dangling [OF h, of "85 / 100"] transition_model_dangling [OF h, of 0]
    transition_model_dangling [OF h, of 1] h
  show ?thesis
    by (simp only: u)
qed

subsection \<open>The result is a probability distribution\<close>

lemma sum_list_indicator:
  "sum_list (map (\<lambda>(key, _). a + (if key \<in> S then b else (0::real))) corpus) =
     real (length corpus) * a + real (length (filter (\<lambda>k. k \<in> S) (map fst corpus))) * b"
  by (induction corpus) (auto simp: algebra_simps)

lemma length_filter_subset:
  assumes "distinct ks" "distinct L" "set L \<subseteq> set ks"
  shows "length (filter (\<lambda>k. k \<in> set L) ks) = length L"
proof -
  have "distinct (filter (\<lambda>k. k \<in> set L) ks)" using assms(1) by simp
  then have "length (filter (\<lambda>k. k \<in> set L) ks) = card (set (filter (\<lambda>k. k \<in> set L) ks))"
    by (rule distinct_card [symmetric])
  also have "set (filter (\<lambda>k. k \<in> set L) ks) = set L" using assms(3) by auto
  also have "card (set L) = length L" using assms(2) by (simp add: distinct_card)
  finally show ?thesis .
qed

lemma wf_corpus_links:
  assumes "wf_corpus corpus" "map_of corpus page = Some L"
  shows "distinct (map fst corpus) \<and> distinct L \<and> set L \<subseteq> set (map fst corpus)"
proof -
  from assms(2) have "(page, L) \<in> set corpus" by (rule map_of_SomeD)
  with assms(1) show ?thesis
    unfolding wf_corpus_def list_all_iff by auto
qed

lemma transition_model_keys:
  "transition_model corpus page d = Inr probs \<Longrightarrow> map fst probs = map fst corpus"
  by (auto simp: transition_model_def Let_def split: option.splits if_splits)

lemma transition_model_defined:
  "map_of corpus page = Some L \<Longrightarrow> \<exists>probs. transition_model corpus page d = Inr probs"
  by (auto simp: transition_model_def Let_def)

lemma transition_model_sum:
  assumes "wf_corpus corpus" "transition_model corpus page d = Inr probs"
  shows "sum_list (map snd probs) = 1"
proof -
  from assms(2) obtain L where L: "map_of corpus page = Some L"
    by (auto simp: transition_model_def split: option.splits)
  then have ne: "corpus \<noteq> []" by auto
  from wf_corpus_links [OF assms(1) L]
  have len: "length (filter (\<lambda>k. k \<in> set L) (map fst corpus)) = length L"
    by (intro length_filter_subset) blast+
  show ?thesis
  proof (cases "L = []")
    case True
    with L ne assms(2) have "probs = map (\<lambda>(key, _). (key, 1 / real (length corpus))) corpus"
      by (auto simp: transition_model_def)
    then have "map snd probs = map (\<lambda>(key, _). 1 / real (length corpus) + (if key \<in> {} then 0 else (0::real))) corpus"
      by (auto simp: comp_def case_prod_beta)
    then show ?thesis using ne by (simp only: sum_list_indicator) simp
  next
    case False
    with L ne assms(2) have "map snd probs =
       map (\<lambda>(key, _). (1 / real (length corpus)) * (1 - d)
            + (if key \<in> set L then (1 / real (length L)) * d else 0)) corpus"
      by (auto simp: transition_model_def Let_def comp_def case_prod_beta)
    then show ?thesis using ne False len
      by (simp only: sum_list_indicator) (simp add: field_simps)
  qed
qed


lemma transition_model_nonneg:
  assumes "transition_model corpus page d = Inr probs" "0 \<le> d" "d \<le> 1"
  shows "list_all (\<lambda>(key, pr). 0 \<le> pr) probs"
  using assms
  by (auto simp: transition_model_def Let_def list_all_iff split: option.splits if_splits)

lemma transition_model_pos:
  assumes "transition_model corpus page d = Inr probs" "map_of corpus page = Some L"
    "0 \<le> d" "d < 1 \<or> L = []"
  shows "list_all (\<lambda>(key, pr). 0 < pr) probs"
  using assms
  by (auto simp: transition_model_def Let_def list_all_iff add_pos_nonneg split: option.splits if_splits)

text \<open>
  C6, as the code has it. For a well-formed corpus, a page of the corpus and a damping
  factor in \<open>[0, 1]\<close>, the result has one entry per page of the corpus (\<open>N\<close> entries, in
  the order of the corpus), its values sum to 1 (exactly, so within \<open>1e-9\<close>), and every
  entry is non-negative. Every entry is strictly positive when \<open>d < 1\<close> or the page has
  no outgoing links.
\<close>

theorem transition_model_distribution:
  assumes "wf_corpus corpus" and "map_of corpus page = Some L" and "0 \<le> d" and "d \<le> 1"
  shows "\<exists>probs. transition_model corpus page d = Inr probs
           \<and> map fst probs = map fst corpus
           \<and> length probs = length corpus
           \<and> sum_list (map snd probs) = 1
           \<and> \<bar>sum_list (map snd probs) - 1\<bar> \<le> 1 / 10 ^ 9
           \<and> list_all (\<lambda>(key, pr). 0 \<le> pr) probs
           \<and> (d < 1 \<or> L = [] \<longrightarrow> list_all (\<lambda>(key, pr). 0 < pr) probs)"
proof -
  from transition_model_defined [OF assms(2)]
  obtain probs where p: "transition_model corpus page d = Inr probs" by blast
  have keys: "map fst probs = map fst corpus"
    using p by (rule transition_model_keys)
  then have len: "length probs = length corpus"
    by (metis length_map)
  have s: "sum_list (map snd probs) = 1"
    using assms(1) p by (rule transition_model_sum)
  have nn: "list_all (\<lambda>(key, pr). 0 \<le> pr) probs"
    using p assms(3,4) by (rule transition_model_nonneg)
  have pos: "d < 1 \<or> L = [] \<longrightarrow> list_all (\<lambda>(key, pr). 0 < pr) probs"
    using transition_model_pos [OF p assms(2,3)] by blast
  from p keys len s nn pos show ?thesis by simp
qed

theorem transition_model_distribution_witness:
  "wf_corpus corpus_abc \<and> map_of corpus_abc ''A'' = Some [''B'', ''C''] \<and>
   (0::real) \<le> 1 / 2 \<and> (1::real) / 2 \<le> 1 \<and>
   (\<exists>probs. transition_model corpus_abc ''A'' (1 / 2) = Inr probs
           \<and> map fst probs = map fst corpus_abc
           \<and> length probs = length corpus_abc
           \<and> sum_list (map snd probs) = 1
           \<and> \<bar>sum_list (map snd probs) - 1\<bar> \<le> 1 / 10 ^ 9
           \<and> list_all (\<lambda>(key, pr). 0 \<le> pr) probs
           \<and> list_all (\<lambda>(key, pr). 0 < pr) probs)"
proof -
  have w: "wf_corpus corpus_abc"
    by (simp add: wf_corpus_def corpus_abc_def)
  have m: "map_of corpus_abc ''A'' = Some [''B'', ''C'']"
    by (simp add: corpus_abc_def)
  have d: "(0::real) \<le> 1 / 2" "(1::real) / 2 \<le> 1" "(1::real) / 2 < 1"
    by simp_all
  from transition_model_distribution [OF w m d(1,2)] d(3) w m d(1,2)
  show ?thesis by blast
qed

text \<open>
  C6 as stated fails at \<open>d = 1\<close>: on \<open>{A: {B, C}, B: {C}, C: {B}}\<close> the entry of page
  A, which A does not link to, is \<open>(1 - 1) / 3 = 0\<close>.
\<close>

theorem transition_model_zero_entry:
  "wf_corpus corpus_abc \<and> map_of corpus_abc ''A'' = Some [''B'', ''C''] \<and>
   transition_model corpus_abc ''A'' 1 = Inr [(''A'', 0), (''B'', 1 / 2), (''C'', 1 / 2)]"
  by (simp add: wf_corpus_def corpus_abc_def transition_model_def Let_def)

section \<open>Properties of sample_pagerank\<close>

subsection \<open>The selection loop\<close>

lemma select_next_reaches:
  "probs \<noteq> [] \<Longrightarrow> rgn < acc + sum_list (map snd probs) \<Longrightarrow>
   \<exists>key. select_next probs rgn acc = Some key \<and> key \<in> set (map fst probs)"
proof (induction probs arbitrary: acc)
  case Nil
  then show ?case by simp
next
  case (Cons e probs)
  obtain k pr where e: "e = (k, pr)" by (cases e)
  show ?case
  proof (cases "rgn < acc + pr")
    case True
    with e show ?thesis by simp
  next
    case False
    with Cons.prems(2) e have ne: "probs \<noteq> []" by auto
    from Cons.prems(2) e have "rgn < (acc + pr) + sum_list (map snd probs)"
      by (simp add: add.assoc)
    from Cons.IH [OF ne this] False e show ?thesis by auto
  qed
qed

lemma select_next_key:
  "select_next probs rgn acc = Some key \<Longrightarrow> key \<in> set (map fst probs)"
  by (induction probs rgn acc rule: select_next.induct) (auto split: if_splits)

subsection \<open>Dicts\<close>

lemma map_of_dict_set: "map_of (dict_set d k v) = (map_of d)(k \<mapsto> v)"
  by (induction d k v rule: dict_set.induct) auto

lemma keys_dict_set:
  "fst ` set (dict_set d k v) = insert k (fst ` set d)"
  by (induction d k v rule: dict_set.induct) auto

lemma distinct_dict_set:
  "distinct (map fst d) \<Longrightarrow> distinct (map fst (dict_set d k v))"
  by (induction d k v rule: dict_set.induct) (auto simp: keys_dict_set)

lemma list_all_dict_set:
  "list_all P d \<Longrightarrow> P (k, v) \<Longrightarrow> list_all P (dict_set d k v)"
  by (induction d k v rule: dict_set.induct) auto

lemma sum_dict_set_new:
  "map_of d k = None \<Longrightarrow> sum_list (map snd (dict_set d k v)) = sum_list (map snd d) + (v::int)"
  by (induction d k v rule: dict_set.induct) (auto split: if_splits)

lemma sum_dict_set_old:
  "map_of d k = Some c \<Longrightarrow> sum_list (map snd (dict_set d k v)) = sum_list (map snd d) - c + (v::int)"
  by (induction d k v rule: dict_set.induct) (auto split: if_splits)

subsection \<open>Counting visits\<close>

lemma map_of_record_visit:
  "map_of (record_visit counts p) q =
     (if q = p then Some ((case map_of counts p of Some c \<Rightarrow> c | None \<Rightarrow> 0) + 1)
      else map_of counts q)"
  by (auto simp: record_visit_def map_of_dict_set split: option.splits)

lemma keys_record_visit:
  "fst ` set (record_visit counts p) = insert p (fst ` set counts)"
  by (auto simp: record_visit_def keys_dict_set split: option.splits)

lemma distinct_record_visit:
  "distinct (map fst counts) \<Longrightarrow> distinct (map fst (record_visit counts p))"
  by (auto simp: record_visit_def distinct_dict_set split: option.splits)

lemma sum_record_visit:
  "sum_list (map snd (record_visit counts p)) = sum_list (map snd counts) + 1"
  by (auto simp: record_visit_def sum_dict_set_new sum_dict_set_old split: option.splits)

lemma map_of_visits:
  "map_of (foldl record_visit counts w) p =
     (if p \<in> set w
      then Some ((case map_of counts p of Some c \<Rightarrow> c | None \<Rightarrow> 0) + int (count_list w p))
      else map_of counts p)"
proof (induction w arbitrary: counts)
  case Nil
  then show ?case by simp
next
  case (Cons q w)
  show ?case
    by (simp add: Cons.IH map_of_record_visit split: option.splits)
qed

lemma keys_visits:
  "fst ` set (foldl record_visit counts w) = fst ` set counts \<union> set w"
  by (induction w arbitrary: counts) (auto simp: keys_record_visit)

lemma distinct_visits:
  "distinct (map fst counts) \<Longrightarrow> distinct (map fst (foldl record_visit counts w))"
  by (induction w arbitrary: counts) (auto simp: distinct_record_visit)

lemma sum_visits:
  "sum_list (map snd (foldl record_visit counts w)) = sum_list (map snd counts) + int (length w)"
  by (induction w arbitrary: counts) (auto simp: sum_record_visit)

subsection \<open>The output\<close>

lemma output_ranks_Inr:
  "n \<noteq> 0 \<Longrightarrow>
   output_ranks counts n = Inr (map (\<lambda>(key, c). (key, real_of_int c / real_of_int n)) counts)"
  by (induction counts n rule: output_ranks.induct) auto

lemma sum_ratios:
  "sum_list (map snd (map (\<lambda>(key, c). (key, real_of_int c / real_of_int n)) counts)) =
     real_of_int (sum_list (map snd counts)) / real_of_int n"
  by (induction counts) (auto simp: add_divide_distrib)

lemma length_walk: "length (walk corpus d rgns i m cur) = m"
  by (induction m arbitrary: i cur) auto


subsection \<open>The loop of sample_pagerank\<close>

lemma map_of_in_keys: "page \<in> fst ` set corpus \<Longrightarrow> \<exists>L. map_of corpus page = Some L"
  by (cases "map_of corpus page") (auto simp: map_of_eq_None_iff)

lemma next_page_in_corpus:
  assumes "cur \<in> fst ` set corpus"
  shows "next_page corpus d cur rgn \<in> fst ` set corpus"
proof (cases "transition_model corpus cur d")
  case (Inl e)
  with assms show ?thesis by (simp add: next_page_def)
next
  case (Inr probs)
  show ?thesis
  proof (cases "select_next probs rgn 0")
    case None
    with Inr assms show ?thesis by (simp add: next_page_def)
  next
    case (Some key)
    then have "key \<in> set (map fst probs)" by (rule select_next_key)
    with transition_model_keys [OF Inr] have "key \<in> fst ` set corpus" by simp
    with Inr Some show ?thesis by (simp add: next_page_def)
  qed
qed

lemma cache_ok_lookup:
  "cache_ok corpus d cache \<Longrightarrow> map_of cache page = Some probs \<Longrightarrow>
   transition_model corpus page d = Inr probs"
  by (auto simp: cache_ok_def list_all_iff dest: map_of_SomeD)

lemma sample_body_step:
  assumes cur: "current_page st \<in> fst ` set corpus"
    and cache: "cache_ok corpus d (pages_probabilities st)"
  shows "\<exists>st'. sample_body corpus d rgn st = Inr st'
           \<and> current_page st' = next_page corpus d (current_page st) rgn
           \<and> pages_count st' = record_visit (pages_count st) (current_page st)
           \<and> cache_ok corpus d (pages_probabilities st')"
proof -
  from map_of_in_keys [OF cur] obtain L where "map_of corpus (current_page st) = Some L" ..
  from transition_model_defined [OF this]
  obtain probs where tm: "transition_model corpus (current_page st) d = Inr probs" by blast
  show ?thesis
  proof (cases "map_of (pages_probabilities st) (current_page st)")
    case None
    have "cache_ok corpus d (dict_set (pages_probabilities st) (current_page st) probs)"
      using cache tm unfolding cache_ok_def by (intro list_all_dict_set) simp_all
    with None tm show ?thesis
      by (simp add: sample_body_def next_page_def Let_def)
  next
    case (Some cached)
    with cache have "transition_model corpus (current_page st) d = Inr cached"
      by (rule cache_ok_lookup)
    with tm have "cached = probs" by simp
    with Some tm cache show ?thesis
      by (simp add: sample_body_def next_page_def Let_def)
  qed
qed

lemma sample_loop_walk:
  assumes "current_page st \<in> fst ` set corpus"
    and "cache_ok corpus d (pages_probabilities st)"
  shows "\<exists>st'. sample_loop corpus d rgns i m st = Inr st'
           \<and> pages_count st' =
               foldl record_visit (pages_count st) (walk corpus d rgns i m (current_page st))"
  using assms
proof (induction m arbitrary: i st)
  case 0
  then show ?case by simp
next
  case (Suc m)
  from sample_body_step [OF Suc.prems, of "rgns i"]
  obtain st1 where b: "sample_body corpus d (rgns i) st = Inr st1"
    and c: "current_page st1 = next_page corpus d (current_page st) (rgns i)"
    and v: "pages_count st1 = record_visit (pages_count st) (current_page st)"
    and k: "cache_ok corpus d (pages_probabilities st1)"
    by blast
  from c Suc.prems(1) have "current_page st1 \<in> fst ` set corpus"
    by (simp add: next_page_in_corpus)
  from Suc.IH [OF this k, of "Suc i"] b c v show ?case
    by simp
qed

lemma choice_in:
  "xs \<noteq> [] \<Longrightarrow> choice xs i = Inr (xs ! (i mod length xs)) \<and> xs ! (i mod length xs) \<in> set xs"
  by (simp add: choice_def)

lemma sample_pagerank_counts:
  assumes "corpus \<noteq> []"
  shows "sample_pagerank corpus d n start rgns =
           output_ranks
             (foldl record_visit []
                (walk corpus d rgns 0 (nat n) (map fst corpus ! (start mod length corpus)))) n"
proof -
  let ?first = "map fst corpus ! (start mod length corpus)"
  let ?st0 = "\<lparr>current_page = ?first, pages_probabilities = [], pages_count = []\<rparr>"
  from assms have ne: "map fst corpus \<noteq> []" by simp
  from choice_in [OF ne, of start]
  have ch: "choice (map fst corpus) start = Inr ?first" and mem: "?first \<in> fst ` set corpus"
    by simp_all
  have "current_page ?st0 \<in> fst ` set corpus" using mem by simp
  moreover have "cache_ok corpus d (pages_probabilities ?st0)" by (simp add: cache_ok_def)
  ultimately obtain st where l: "sample_loop corpus d rgns 0 (nat n) ?st0 = Inr st"
    and c: "pages_count st = foldl record_visit (pages_count ?st0)
              (walk corpus d rgns 0 (nat n) (current_page ?st0))"
    using sample_loop_walk [of ?st0 corpus d rgns 0 "nat n"] by blast
  from l c ch show ?thesis
    by (simp add: sample_pagerank_def)
qed

lemma keys_ratios: "map fst (map (\<lambda>(key, c). (key, f c)) xs) = map fst xs"
  by (induction xs) auto

text \<open>
  C8, as the code has it. \<open>sample_pagerank\<close> checks neither parameter: on a corpus with
  at least one page it returns a result, without an error, for every damping factor and
  every \<open>n\<close>; for \<open>n < 1\<close> the loop is not entered and the result is the empty dict.
\<close>

theorem sample_pagerank_unvalidated:
  assumes "corpus \<noteq> []"
  shows "\<exists>ranks. sample_pagerank corpus d n start rgns = Inr ranks \<and> (n < 1 \<longrightarrow> ranks = [])"
proof -
  note r = sample_pagerank_counts [OF assms, of d n start rgns]
  show ?thesis
  proof (cases "n < 1")
    case True
    then have "nat n = 0" by simp
    with r True show ?thesis by simp
  next
    case False
    then have "n \<noteq> 0" by simp
    from output_ranks_Inr [OF this, of "foldl record_visit []
                (walk corpus d rgns 0 (nat n) (map fst corpus ! (start mod length corpus)))"] r False
    show ?thesis by simp
  qed
qed

theorem sample_pagerank_unvalidated_witness:
  "corpus_test \<noteq> [] \<and>
   (\<exists>ranks. sample_pagerank corpus_test (85 / 100) (- 3) 0 (const_rgns 0) = Inr ranks \<and> ranks = [])"
proof -
  have ne: "corpus_test \<noteq> []" by (simp add: corpus_test_def)
  from sample_pagerank_unvalidated [OF ne, of "85 / 100" "- 3" 0 "const_rgns 0"] ne
  show ?thesis by simp
qed

text \<open>
  C8 as stated fails: on the corpus of test.py, \<open>n = 0\<close> and \<open>n = -3\<close> give the empty
  dict, and the damping factor 2 with \<open>n = 1\<close> gives \<open>{1.html: 1.0}\<close>; nothing is raised.
\<close>

theorem sample_pagerank_accepts_invalid:
  "sample_pagerank corpus_test (85 / 100) 0 0 (const_rgns 0) = Inr [] \<and>
   sample_pagerank corpus_test (85 / 100) (- 3) 0 (const_rgns 0) = Inr [] \<and>
   sample_pagerank corpus_test 2 1 0 (const_rgns 0) = Inr [(''1.html'', 1)]"
  by (simp add: sample_pagerank_def choice_def corpus_test_def sample_body_def
      record_visit_def transition_model_def const_rgns_def Let_def)

text \<open>
  C9. On a corpus with at least one page and for \<open>n \<ge> 1\<close>, \<open>sample_pagerank\<close> returns a
  dict whose keys are exactly the pages visited in the \<open>n\<close> steps of the walk, each with
  its number of visits divided by \<open>n\<close>; the values sum to 1. Pages that were not visited
  have no entry, and no error is raised. For \<open>n = 1\<close> the result is the single entry of
  the starting page, with value 1.
\<close>

theorem sample_pagerank_visited:
  assumes "corpus \<noteq> []" and "1 \<le> n"
  shows "\<exists>ranks. sample_pagerank corpus d n start rgns = Inr ranks
           \<and> distinct (map fst ranks)
           \<and> set (map fst ranks) = set (visited_pages corpus d n start rgns)
           \<and> list_all (\<lambda>(page, rank).
                  rank = real (count_list (visited_pages corpus d n start rgns) page) / real_of_int n)
                ranks
           \<and> sum_list (map snd ranks) = 1
           \<and> (n = 1 \<longrightarrow> ranks = [(map fst corpus ! (start mod length corpus), 1)])"
proof -
  let ?w = "visited_pages corpus d n start rgns"
  let ?counts = "foldl record_visit [] ?w"
  let ?ranks = "map (\<lambda>(key, c). (key, real_of_int c / real_of_int n)) ?counts"
  from assms(2) have n0: "n \<noteq> 0" by simp
  from sample_pagerank_counts [OF assms(1), of d n start rgns]
  have "sample_pagerank corpus d n start rgns = output_ranks ?counts n"
    by (simp add: visited_pages_def)
  with output_ranks_Inr [OF n0]
  have res: "sample_pagerank corpus d n start rgns = Inr ?ranks" by simp
  have keys: "map fst ?ranks = map fst ?counts"
    by (rule keys_ratios)
  have dc: "distinct (map fst ?counts)"
    by (rule distinct_visits) simp
  have d: "distinct (map fst ?ranks)"
    using dc by (simp only: keys)
  have "set (map fst ?counts) = set ?w"
    using keys_visits [of "[]" ?w] by simp
  then have k: "set (map fst ?ranks) = set ?w"
    by (simp only: keys)
  have v: "list_all (\<lambda>(page, rank). rank = real (count_list ?w page) / real_of_int n) ?ranks"
    unfolding list_all_iff
  proof
    fix e assume "e \<in> set ?ranks"
    then obtain page c where e: "e = (page, real_of_int c / real_of_int n)"
      and m: "(page, c) \<in> set ?counts"
      by auto
    from map_of_is_SomeI [OF dc m] have "map_of ?counts page = Some c" .
    then have "c = int (count_list ?w page)"
      by (simp add: map_of_visits split: if_splits)
    with e show "case e of (page, rank) \<Rightarrow> rank = real (count_list ?w page) / real_of_int n"
      by simp
  qed
  have len: "length ?w = nat n"
    by (simp add: visited_pages_def length_walk)
  have s: "sum_list (map snd ?ranks) = 1"
    using assms(2) by (simp only: sum_ratios sum_visits len) simp
  have one: "n = 1 \<longrightarrow> ?ranks = [(map fst corpus ! (start mod length corpus), 1)]"
  proof
    assume n1: "n = 1"
    then have "nat n = Suc 0" by simp
    then have "?w = [map fst corpus ! (start mod length corpus)]"
      by (simp add: visited_pages_def)
    with n1 show "?ranks = [(map fst corpus ! (start mod length corpus), 1)]"
      by (simp add: record_visit_def)
  qed
  show ?thesis
    by (rule exI [of _ ?ranks], intro conjI) (rule res d k v s one)+
qed

theorem sample_pagerank_visited_witness:
  "corpus_test \<noteq> [] \<and> (1::int) \<le> 3 \<and>
   visited_pages corpus_test (85 / 100) 3 0 (const_rgns (1 / 2)) = [''1.html'', ''2.html'', ''3.html''] \<and>
   (\<exists>ranks. sample_pagerank corpus_test (85 / 100) 3 0 (const_rgns (1 / 2)) = Inr ranks
           \<and> distinct (map fst ranks)
           \<and> set (map fst ranks) = {''1.html'', ''2.html'', ''3.html''}
           \<and> sum_list (map snd ranks) = 1) \<and>
   sample_pagerank corpus_test (85 / 100) 1 0 (const_rgns (1 / 2)) = Inr [(''1.html'', 1)]"
proof -
  have ne: "corpus_test \<noteq> []" by (simp add: corpus_test_def)
  have n: "(1::int) \<le> 3" by simp
  have three: "nat 3 = Suc (Suc (Suc 0))" by simp
  have w: "visited_pages corpus_test (85 / 100) 3 0 (const_rgns (1 / 2)) = [''1.html'', ''2.html'', ''3.html'']"
    unfolding visited_pages_def three
    by (simp add: corpus_test_def const_rgns_def next_page_def transition_model_def Let_def)
  from sample_pagerank_visited [OF ne n, of "85 / 100" 0 "const_rgns (1 / 2)"]
  obtain ranks where r: "sample_pagerank corpus_test (85 / 100) 3 0 (const_rgns (1 / 2)) = Inr ranks"
    and d: "distinct (map fst ranks)"
    and k: "set (map fst ranks) = set (visited_pages corpus_test (85 / 100) 3 0 (const_rgns (1 / 2)))"
    and s: "sum_list (map snd ranks) = 1"
    by blast
  from k have k': "set (map fst ranks) = {''1.html'', ''2.html'', ''3.html''}"
    by (simp only: w) simp
  have "\<exists>ranks. sample_pagerank corpus_test (85 / 100) 3 0 (const_rgns (1 / 2)) = Inr ranks
           \<and> distinct (map fst ranks)
           \<and> set (map fst ranks) = {''1.html'', ''2.html'', ''3.html''}
           \<and> sum_list (map snd ranks) = 1"
    by (rule exI [of _ ranks], intro conjI) (rule r d k' s)+
  moreover
  from sample_pagerank_visited [OF ne, of 1 "85 / 100" 0 "const_rgns (1 / 2)"]
  have "sample_pagerank corpus_test (85 / 100) 1 0 (const_rgns (1 / 2)) = Inr [(''1.html'', 1)]"
    by (auto simp: corpus_test_def)
  ultimately show ?thesis
    by (intro conjI) (rule ne n w | assumption)+
qed

subsection \<open>The selection loop, exactly and in binary64\<close>

text \<open>
  In exact arithmetic the running sum of a transition distribution ends at 1, so every
  draw below 1 selects an entry.
\<close>

lemma select_next_exact:
  assumes "wf_corpus corpus" and "map_of corpus page = Some L" and "rgn < 1"
  shows "\<exists>probs key. transition_model corpus page d = Inr probs
           \<and> select_next probs rgn 0 = Some key
           \<and> key \<in> set (map fst corpus)
           \<and> (cache_ok corpus d (pages_probabilities st) \<and> current_page st = page \<longrightarrow>
                (\<exists>st'. sample_body corpus d rgn st = Inr st' \<and> current_page st' = key))"
proof -
  from transition_model_defined [OF assms(2)]
  obtain probs where p: "transition_model corpus page d = Inr probs" by blast
  have s: "sum_list (map snd probs) = 1"
    using assms(1) p by (rule transition_model_sum)
  have keys: "map fst probs = map fst corpus"
    using p by (rule transition_model_keys)
  from assms(2) have "corpus \<noteq> []" by auto
  with keys have ne: "probs \<noteq> []" by auto
  from s assms(3) have "rgn < 0 + sum_list (map snd probs)" by simp
  from select_next_reaches [OF ne this]
  obtain key where k: "select_next probs rgn 0 = Some key" "key \<in> set (map fst probs)"
    by blast
  have "\<exists>st'. sample_body corpus d rgn st = Inr st' \<and> current_page st' = key"
    if c: "cache_ok corpus d (pages_probabilities st)" and cur: "current_page st = page"
  proof -
    from assms(2) cur have "current_page st \<in> fst ` set corpus"
      by (auto dest: map_of_SomeD intro: rev_image_eqI)
    from sample_body_step [OF this c, of rgn] cur p k(1) show ?thesis
      by (auto simp: next_page_def)
  qed
  with p k keys show ?thesis by auto
qed

lemma round_bits_scaled:
  "0 < x \<Longrightarrow> 1 \<le> x * 2 ^ k \<Longrightarrow> x * 2 ^ k < 2 \<Longrightarrow>
   round_bits (Suc (k + n)) x = of_int (round_even (x * 2 ^ (52 + k))) / 2 ^ (52 + k)"
proof (induction k arbitrary: x)
  case 0
  then show ?case by (simp add: round_bits.simps)
next
  case (Suc k)
  have "(2::real) \<le> 2 ^ Suc k" by simp
  with Suc.prems have "x * 2 \<le> x * 2 ^ Suc k" by (intro mult_left_mono) simp_all
  with Suc.prems(3) have small: "x < 1" by simp
  have e: "52 + Suc k = Suc (52 + k)" by (rule add_Suc_right)
  have scale: "2 * x * 2 ^ (52 + k) = x * 2 ^ (52 + Suc k)"
    by (simp only: e power_Suc mult_ac)
  from Suc.prems have "round_bits (Suc (k + n)) (2 * x) =
      of_int (round_even (2 * x * 2 ^ (52 + k))) / 2 ^ (52 + k)"
    by (intro Suc.IH) (simp_all add: mult.assoc mult.left_commute)
  then have ih: "round_bits (Suc (k + n)) (2 * x) =
      of_int (round_even (x * 2 ^ (52 + Suc k))) / 2 ^ (52 + k)"
    by (simp only: scale)
  have "round_bits (Suc (Suc k + n)) x = round_bits (Suc k + n) (2 * x) / 2"
    using small by (subst round_bits.simps(2)) simp
  also have "\<dots> = round_bits (Suc (k + n)) (2 * x) / 2" by simp
  also have "\<dots> = of_int (round_even (x * 2 ^ (52 + Suc k))) / 2 ^ (52 + k) / 2"
    by (simp only: ih)
  also have "\<dots> = of_int (round_even (x * 2 ^ (52 + Suc k))) / 2 ^ (52 + Suc k)"
    by (simp only: e power_Suc divide_divide_eq_left mult_ac)
  finally show ?case .
qed

lemma double_scaled:
  assumes "0 < x" and "1 \<le> x * 2 ^ k" and "x * 2 ^ k < 2" and "k \<le> 1099"
  shows "double x = of_int (round_even (x * 2 ^ (52 + k))) / 2 ^ (52 + k)"
proof -
  from assms(4) have "Suc (k + (1099 - k)) = 1100" by simp
  with round_bits_scaled [OF assms(1-3), of "1099 - k"]
  have "round_bits 1100 x = of_int (round_even (x * 2 ^ (52 + k))) / 2 ^ (52 + k)"
    by (simp only:)
  with assms(1) show ?thesis by (simp add: double_def)
qed

lemma double_third: "double (1 / 3) = 6004799503160661 / 2 ^ 54"
  by (simp add: double_scaled [where k = 2] round_even_def Let_def)

lemma double_one_minus_half: "double (1 - 1 / 2) = 1 / 2"
  by (simp add: double_scaled [where k = 1] round_even_def Let_def)

lemma double_teleport: "double (6004799503160661 / 2 ^ 54 * (1 / 2)) = 6004799503160661 / 2 ^ 55"
  by (simp add: double_scaled [where k = 3] round_even_def Let_def)

lemma double_linked: "double (6004799503160661 / 2 ^ 55 + 1 / 4) = 7505999378950826 / 2 ^ 54"
  by (simp add: double_scaled [where k = 2] round_even_def Let_def)

lemma double_sum_two: "double (6004799503160661 / 2 ^ 55 + 7505999378950826 / 2 ^ 54) = 5254199565265578 / 2 ^ 53"
  by (simp add: double_scaled [where k = 1] round_even_def Let_def)

lemma double_sum_three: "double (5254199565265578 / 2 ^ 53 + 7505999378950826 / 2 ^ 54) = 1 - 1 / 2 ^ 53"
  by (simp add: double_scaled [where k = 1] round_even_def Let_def)

lemma abc_double:
  "transition_model_double corpus_abc ''A'' (1 / 2) =
     Inr [(''A'', 6004799503160661 / 2 ^ 55),
          (''B'', 7505999378950826 / 2 ^ 54),
          (''C'', 7505999378950826 / 2 ^ 54)]"
proof -
  have q: "double (1 / 2) = 1 / 2" "double (1 / 2 * (1 / 2)) = 1 / 4"
    by (simp_all add: double_scaled [where k = 1] double_scaled [where k = 2]
        round_even_def Let_def)
  have "transition_model_double corpus_abc ''A'' (1 / 2) =
     Inr [(''A'', double (double (1 / 3) * double (1 - 1 / 2))),
          (''B'', double (double (double (1 / 3) * double (1 - 1 / 2))
                    + double (double (1 / 2) * (1 / 2)))),
          (''C'', double (double (double (1 / 3) * double (1 - 1 / 2))
                    + double (double (1 / 2) * (1 / 2))))]"
    by (simp add: transition_model_double_def corpus_abc_def Let_def)
  also have "double (double (1 / 3) * double (1 - 1 / 2)) = 6004799503160661 / 2 ^ 55"
    by (simp only: double_third double_one_minus_half double_teleport)
  also have "double (double (1 / 2) * (1 / 2)) = 1 / 4"
    by (simp only: q)
  also have "double (6004799503160661 / 2 ^ 55 + 1 / 4) = 7505999378950826 / 2 ^ 54"
    by (rule double_linked)
  finally show ?thesis .
qed

lemma running_sums:
  "double (0 + 6004799503160661 / 2 ^ 55) = 6004799503160661 / 2 ^ 55"
  "double (6004799503160661 / 2 ^ 55 + 7505999378950826 / 2 ^ 54) = 5254199565265578 / 2 ^ 53"
  "double (5254199565265578 / 2 ^ 53 + 7505999378950826 / 2 ^ 54) = 1 - 1 / 2 ^ 53"
  by (simp add: double_scaled [where k = 3] round_even_def Let_def, rule double_sum_two, rule double_sum_three)

lemma abc_select:
  "select_next_double
     [(''A'', 6004799503160661 / 2 ^ 55),
      (''B'', 7505999378950826 / 2 ^ 54),
      (''C'', 7505999378950826 / 2 ^ 54)] (1 - 1 / 2 ^ 53) 0 = None"
  by (simp only: select_next_double.simps running_sums) simp

text \<open>
  C10 does not hold of the code. On \<open>{A: {B, C}, B: {C}, C: {B}}\<close> with \<open>d = 0.5\<close> the
  distribution of page A in binary64 is 0.16666666666666666, 0.41666666666666663,
  0.41666666666666663, and the running sums of line 107 are 0.16666666666666666,
  0.5833333333333333 and \<open>1 - 2 ^ -53\<close> = 0.9999999999999999. For the draw
  \<open>1 - 2 ^ -53\<close>, the largest value \<open>random.random()\<close> returns, the test of line 108
  is never true: the loop ends without \<open>break\<close> and the walk stays on A.
\<close>

theorem selection_falls_through:
  "transition_model_double corpus_abc ''A'' (1 / 2) =
     Inr [(''A'', 6004799503160661 / 2 ^ 55),
          (''B'', 7505999378950826 / 2 ^ 54),
          (''C'', 7505999378950826 / 2 ^ 54)]
   \<and> double (0 + 6004799503160661 / 2 ^ 55) = 6004799503160661 / 2 ^ 55
   \<and> double (6004799503160661 / 2 ^ 55 + 7505999378950826 / 2 ^ 54) = 5254199565265578 / 2 ^ 53
   \<and> double (5254199565265578 / 2 ^ 53 + 7505999378950826 / 2 ^ 54) = 1 - 1 / 2 ^ 53
   \<and> double (1 - 1 / 2 ^ 53) = 1 - 1 / 2 ^ 53
   \<and> (0::real) \<le> 1 - 1 / 2 ^ 53 \<and> (1::real) - 1 / 2 ^ 53 < 1
   \<and> select_next_double
        [(''A'', 6004799503160661 / 2 ^ 55),
         (''B'', 7505999378950826 / 2 ^ 54),
         (''C'', 7505999378950826 / 2 ^ 54)] (1 - 1 / 2 ^ 53) 0 = None
   \<and> sample_body_double corpus_abc (1 / 2) (1 - 1 / 2 ^ 53)
        \<lparr>current_page = ''A'', pages_probabilities = [], pages_count = []\<rparr> =
      Inr \<lparr>current_page = ''A'',
           pages_probabilities =
             [(''A'', [(''A'', 6004799503160661 / 2 ^ 55),
                       (''B'', 7505999378950826 / 2 ^ 54),
                       (''C'', 7505999378950826 / 2 ^ 54)])],
           pages_count = [(''A'', 1)]\<rparr>"
proof (intro conjI)
  show "double (1 - 1 / 2 ^ 53) = 1 - 1 / 2 ^ 53"
    by (simp add: double_scaled [where k = 1] round_even_def Let_def)
  show "sample_body_double corpus_abc (1 / 2) (1 - 1 / 2 ^ 53)
        \<lparr>current_page = ''A'', pages_probabilities = [], pages_count = []\<rparr> =
      Inr \<lparr>current_page = ''A'',
           pages_probabilities =
             [(''A'', [(''A'', 6004799503160661 / 2 ^ 55),
                       (''B'', 7505999378950826 / 2 ^ 54),
                       (''C'', 7505999378950826 / 2 ^ 54)])],
           pages_count = [(''A'', 1)]\<rparr>"
    unfolding sample_body_double_def
    by (simp only: Let_def sample_state.simps map_of.simps option.case abc_double sum.case
        prod.case abc_select dict_set.simps record_visit_def)
qed (rule abc_double running_sums abc_select | simp)+

section \<open>Properties of iterate_pagerank\<close>

subsection \<open>One pass and the exit of the loop\<close>





lemma iterate_loop_stops:
  "N \<le> convergence_count st \<Longrightarrow>
   iterate_loop fuel corpus d mentions pages_list N st = Some (Inr st)"
  by (cases fuel) simp_all

lemma iterate_loop_continues:
  "convergence_count st < N \<Longrightarrow>
   iterate_loop (Suc fuel) corpus d mentions pages_list N st =
     (case iterate_body corpus d mentions pages_list N st of
        Inl e \<Rightarrow> Some (Inl e)
      | Inr st1 \<Rightarrow> iterate_loop fuel corpus d mentions pages_list N st1)"
  by simp
























subsection \<open>Pages without incoming or outgoing links\<close>

lemma set_dict_set: "set (dict_set d k v) \<subseteq> insert (k, v) (set d)"
  by (induction d k v rule: dict_set.induct) auto

lemma mentions_ok_dict_set:
  assumes "mentions_ok corpus m" and "list_all (\<lambda>p. links_to corpus p q) refs"
  shows "mentions_ok corpus (dict_set m q refs)"
  using assms set_dict_set [of m q refs]
  unfolding mentions_ok_def list_all_iff by blast

lemma mentions_ok_lookup:
  "mentions_ok corpus m \<Longrightarrow> map_of m q = Some refs \<Longrightarrow> list_all (\<lambda>p. links_to corpus p q) refs"
  unfolding mentions_ok_def list_all_iff by (auto dest: map_of_SomeD)

lemma mention_links_ok:
  assumes "mentions_ok corpus m" and "list_all (\<lambda>q. links_to corpus page q) links"
  shows "mentions_ok corpus (mention_links page links m)"
  using assms
proof (induction links arbitrary: m)
  case Nil
  then show ?case by simp
next
  case (Cons q links)
  from Cons.prems(2) have q: "links_to corpus page q"
    and rest: "list_all (\<lambda>q. links_to corpus page q) links"
    by simp_all
  have "mentions_ok corpus
          (case map_of m q of
             Some s \<Rightarrow> dict_set m q (set_add s page)
           | None \<Rightarrow> dict_set m q [page])"
  proof (cases "map_of m q")
    case None
    with Cons.prems(1) q show ?thesis
      by (simp add: mentions_ok_dict_set)
  next
    case (Some s)
    from mentions_ok_lookup [OF Cons.prems(1) Some] q
    have "list_all (\<lambda>p. links_to corpus p q) (set_add s page)"
      by (simp add: set_add_def)
    with Cons.prems(1) Some show ?thesis
      by (simp add: mentions_ok_dict_set)
  qed
  from Cons.IH [OF this rest] show ?case by simp
qed

lemma init_loop_ok:
  assumes "mentions_ok corpus m"
    and "list_all (\<lambda>(page, links). list_all (\<lambda>q. links_to corpus page q) links) rest"
  shows "mentions_ok corpus (snd (init_loop rest r (ranks, m)))"
  using assms
proof (induction rest arbitrary: ranks m)
  case Nil
  then show ?case by simp
next
  case (Cons e rest)
  obtain page links where e: "e = (page, links)" by (cases e)
  from Cons.prems(2) e have l: "list_all (\<lambda>q. links_to corpus page q) links"
    and r: "list_all (\<lambda>(page, links). list_all (\<lambda>q. links_to corpus page q) links) rest"
    by simp_all
  from mention_links_ok [OF Cons.prems(1) l]
  have "mentions_ok corpus (mention_links page links m)" .
  from Cons.IH [OF this r] e show ?case by simp
qed

lemma corpus_links_to:
  "list_all (\<lambda>(page, links). list_all (\<lambda>q. links_to corpus page q) links) corpus"
  unfolding list_all_iff links_to_def list_ex_iff by auto

lemma initial_mentions_ok: "mentions_ok corpus (fst (initial_state corpus))"
proof -
  have "mentions_ok corpus []" by (simp add: mentions_ok_def)
  from init_loop_ok [OF this corpus_links_to, of "1 / real (length corpus)" "[]"]
  show ?thesis
    by (simp add: initial_state_def case_prod_beta)
qed

lemma dangling_never_mentions:
  assumes "distinct (map fst corpus)" and "map_of corpus p = Some []"
    and "map_of (fst (initial_state corpus)) q = Some refs"
  shows "p \<notin> set refs"
proof
  assume "p \<in> set refs"
  with mentions_ok_lookup [OF initial_mentions_ok assms(3)]
  have "links_to corpus p q" by (simp add: list_all_iff)
  then obtain links where m: "(p, links) \<in> set corpus" and q: "q \<in> set links"
    by (auto simp: links_to_def list_ex_iff)
  from map_of_is_SomeI [OF assms(1) m] assms(2) q show False by simp
qed

text \<open>
  C2 does not hold of the code. A page without an entry in \<open>pages_that_mention_pages\<close>
  takes the \<open>else\<close> of line 150, which reads \<open>reference_page\<close>. On the corpus of test.py
  the first page updated is such a page and the variable is unbound: the function raises
  UnboundLocalError. On \<open>{C: {B}, A: {B}, B: {C}}\<close> page A is updated second, when the
  variable is bound to B by the update of C (whose only mentioning page is B), and A gets
  \<open>(1 - d) / 3 + d * rank(B) / 3\<close>, which is \<open>2 / 9\<close> for \<open>d = 1 / 2\<close>, instead of
  \<open>(1 - d) / 3 = 1 / 6\<close>.
\<close>

theorem stale_reference_page:
  "iterate_pagerank corpus_test (85 / 100) (Suc fuel) = Some (Inl UnboundLocalError) \<and>
   initial_state corpus_late =
     ([(''B'', [''C'', ''A'']), (''C'', [''B''])],
      \<lparr>page_ranks = [(''C'', 1 / 3), (''A'', 1 / 3), (''B'', 1 / 3)],
       current_count = 0, convergence_count = 0, reference_page = None\<rparr>) \<and>
   iterate_body corpus_late (1 / 2) [(''B'', [''C'', ''A'']), (''C'', [''B''])] [''C'', ''A'', ''B''] 3
     \<lparr>page_ranks = [(''C'', 1 / 3), (''A'', 1 / 3), (''B'', 1 / 3)],
      current_count = 0, convergence_count = 0, reference_page = None\<rparr> =
   Inr \<lparr>page_ranks = [(''C'', 1 / 3), (''A'', 1 / 3), (''B'', 1 / 3)],
        current_count = 1, convergence_count = 1, reference_page = Some ''B''\<rparr> \<and>
   map_of [(''B'', [''C'', ''A'']), (''C'', [''B''])] ''A'' = None \<and>
   iterate_body corpus_late (1 / 2) [(''B'', [''C'', ''A'']), (''C'', [''B''])] [''C'', ''A'', ''B''] 3
     \<lparr>page_ranks = [(''C'', 1 / 3), (''A'', 1 / 3), (''B'', 1 / 3)],
      current_count = 1, convergence_count = 1, reference_page = Some ''B''\<rparr> =
   Inr \<lparr>page_ranks = [(''C'', 1 / 3), (''A'', (1 - 1 / 2) / 3 + 1 / 2 * ((1 / 3) / 3)), (''B'', 1 / 3)],
        current_count = 2, convergence_count = 0, reference_page = Some ''B''\<rparr> \<and>
   (1 - 1 / 2) / 3 + 1 / 2 * ((1 / 3) / 3) = (2 / 9 :: real) \<and>
   (1 - 1 / 2) / 3 = (1 / 6 :: real)"
proof (intro conjI)
  show "iterate_pagerank corpus_test (85 / 100) (Suc fuel) = Some (Inl UnboundLocalError)"
    by (simp add: iterate_pagerank_def initial_state_def corpus_test_def set_add_def
        iterate_body_def Let_def)
qed (simp_all add: initial_state_def corpus_late_def set_add_def iterate_body_def Let_def)

text \<open>
  C3 does not hold of the code. In \<open>{A: {B, C, D}, B: {A}, C: {B}, D: {}}\<close> page D has no
  outgoing link, so no page has D among the pages that mention it (the lemma above). The
  update of A sums over its only mentioning page B: the new rank is
  \<open>(1 - d) / 4 + d * rank(B) / 1\<close>, with no term \<open>d * rank(D) / 4\<close>.
\<close>

theorem dangling_rank_not_redistributed:
  "map_of corpus_dangling ''D'' = Some [] \<and>
   initial_state corpus_dangling =
     ([(''B'', [''A'', ''C'']), (''C'', [''A'']), (''D'', [''A'']), (''A'', [''B''])],
      \<lparr>page_ranks = [(''A'', 1 / 4), (''B'', 1 / 4), (''C'', 1 / 4), (''D'', 1 / 4)],
       current_count = 0, convergence_count = 0, reference_page = None\<rparr>) \<and>
   iterate_body corpus_dangling d
     [(''B'', [''A'', ''C'']), (''C'', [''A'']), (''D'', [''A'']), (''A'', [''B''])]
     [''A'', ''B'', ''C'', ''D''] 4
     \<lparr>page_ranks = [(''A'', 1 / 4), (''B'', 1 / 4), (''C'', 1 / 4), (''D'', 1 / 4)],
      current_count = 0, convergence_count = 0, reference_page = None\<rparr> =
   Inr \<lparr>page_ranks = [(''A'', (1 - d) / 4 + d * ((1 / 4) / 1)),
                      (''B'', 1 / 4), (''C'', 1 / 4), (''D'', 1 / 4)],
        current_count = 1, convergence_count = 1, reference_page = Some ''B''\<rparr>"
  by (simp add: initial_state_def corpus_dangling_def set_add_def iterate_body_def Let_def
      field_simps)

section \<open>The empty corpus\<close>

text \<open>
  C7. On a corpus without pages each of the three functions raises: \<open>transition_model\<close>
  a KeyError at \<open>corpus[page]\<close>, \<open>sample_pagerank\<close> an IndexError in \<open>random.choice\<close>,
  \<open>iterate_pagerank\<close> a ZeroDivisionError at \<open>1 / page_count\<close>, before its loop is
  entered (no fuel is needed).
\<close>

theorem empty_corpus_raises:
  "transition_model [] page d = Inl KeyError \<and>
   sample_pagerank [] d n start rgns = Inl IndexError \<and>
   iterate_pagerank [] d fuel = Some (Inl ZeroDivisionError)"
  by (simp add: transition_model_def sample_pagerank_def choice_def iterate_pagerank_def)

end
